theory Spec2Isabelle
  imports Complex_Main
begin

chapter \<open>The print-sheet composition engine of \<open>print_photos.py\<close>\<close>

text \<open>
  The development follows the class \<open>PhotoProcessor\<close>: the quadrant fitter
  \<open>fit_image_to_quad\<close>, the two compositors \<open>create_2x2_sheet\<close> and
  \<open>create_1x2_sheet\<close>, the layout evaluation \<open>_calculate_layout_area\<close> and the chunking
  loop of \<open>process_folders\<close>. The source computes every scale and every covered area
  with Python's \<open>/\<close> and \<open>*\<close> on floats, so the first section gives the arithmetic
  of Python floats (IEEE 754 binary64, round to nearest, ties to even) on exact
  rationals. Console output (\<open>print\<close>) is not modelled.
\<close>

section \<open>Exceptions\<close>

datatype py_error = ZeroDivisionError | OverflowError | ValueError | OSError

text \<open>Sequencing of two computations, the first of which may raise.\<close>

definition and_then :: "py_error + 'a \<Rightarrow> ('a \<Rightarrow> py_error + 'b) \<Rightarrow> py_error + 'b" where
  "and_then r f = (case r of Inl e \<Rightarrow> Inl e | Inr x \<Rightarrow> f x)"

section \<open>Python floats\<close>

text \<open>
  A finite float is represented by the rational number it denotes; the two zeros are not
  told apart (nothing in the source divides by a float or reads a sign bit).
\<close>

datatype pyfloat = Fin rat | PInf | NInf | NaN

text \<open>\<open>int.bit_length()\<close> for a positive integer.\<close>

function bit_length :: "int \<Rightarrow> int" where
  "bit_length n = (if n \<le> 0 then 0 else 1 + bit_length (n div 2))"
  by pat_completeness auto
termination
  by (relation "measure nat") auto

declare bit_length.simps [simp del]

definition pow2 :: "int \<Rightarrow> rat" where
  "pow2 k = (if 0 \<le> k then 2 ^ nat k else 1 / 2 ^ nat (- k))"

text \<open>The binary exponent \<open>e\<close> of a positive rational \<open>x\<close>: \<open>2^e \<le> x < 2^(e+1)\<close>.\<close>

definition ilog2 :: "rat \<Rightarrow> int" where
  "ilog2 x = (case quotient_of x of (p, q) \<Rightarrow>
     (let d = bit_length p - bit_length q
      in if pow2 d \<le> x then d else d - 1))"

text \<open>
  Rounding to the nearest integer, ties to the even one: \<open>f\<close> is the floor of the
  number and \<open>r\<close> its fractional part.
\<close>

definition half_even :: "int \<Rightarrow> rat \<Rightarrow> int" where
  "half_even f r =
     (if r < 1 / 2 then f else if 1 / 2 < r then f + 1 else if even f then f else f + 1)"

definition round_half_even :: "rat \<Rightarrow> int" where
  "round_half_even x = half_even \<lfloor>x\<rfloor> (x - of_int \<lfloor>x\<rfloor>)"

text \<open>
  The exponent of the unit in the last place: 53 significant bits for a normal number,
  the fixed spacing \<open>2^-1074\<close> below \<open>2^-1022\<close> (subnormal numbers).
\<close>

definition ulp_exp :: "rat \<Rightarrow> int" where
  "ulp_exp x = max (ilog2 x - 52) (- 1074)"

text \<open>The multiple of the unit \<open>u\<close> nearest to \<open>x\<close>.\<close>

definition round_to_unit :: "rat \<Rightarrow> rat \<Rightarrow> rat" where
  "round_to_unit x u = of_int (round_half_even (x / u)) * u"

definition round_pos :: "rat \<Rightarrow> rat" where
  "round_pos x = round_to_unit x (pow2 (ulp_exp x))"

definition round_binary64 :: "rat \<Rightarrow> rat" where
  "round_binary64 x = (if x = 0 then 0 else if 0 < x then round_pos x else - round_pos (- x))"

text \<open>
  The correctly rounded result of an exact value. A rounded magnitude of \<open>2^1024\<close> or
  more, that is a binary exponent of at least 1024, is beyond the largest float: the
  result is an infinity.
\<close>

definition finite_or_inf :: "rat \<Rightarrow> pyfloat" where
  "finite_or_inf r = (if ilog2 \<bar>r\<bar> < 1024 then Fin r else if 0 < r then PInf else NInf)"

definition binary64 :: "rat \<Rightarrow> pyfloat" where
  "binary64 x = finite_or_inf (round_binary64 x)"

text \<open>
  \<open>float(n)\<close>, as done implicitly by \<open>n * f\<close>: correctly rounded, and
  \<open>OverflowError\<close> when \<open>n\<close> is too large for a float.
\<close>

definition int_to_float :: "int \<Rightarrow> py_error + pyfloat" where
  "int_to_float n = (case binary64 (of_int n) of Fin r \<Rightarrow> Inr (Fin r) | _ \<Rightarrow> Inl OverflowError)"

text \<open>
  \<open>a / b\<close> on two integers: the correctly rounded quotient of the exact integers,
  \<open>ZeroDivisionError\<close> for \<open>b = 0\<close>, \<open>OverflowError\<close> when the quotient is too large.
\<close>

definition true_div :: "int \<Rightarrow> int \<Rightarrow> py_error + pyfloat" where
  "true_div a b =
     (if b = 0 then Inl ZeroDivisionError
      else case binary64 (of_int a / of_int b) of Fin r \<Rightarrow> Inr (Fin r) | _ \<Rightarrow> Inl OverflowError)"

text \<open>\<open>x * y\<close> and \<open>x + y\<close> on floats: they never raise, they overflow to an infinity.\<close>

definition inf_of_sign :: "rat \<Rightarrow> pyfloat" where
  "inf_of_sign a = (if a = 0 then NaN else if 0 < a then PInf else NInf)"

fun float_mul :: "pyfloat \<Rightarrow> pyfloat \<Rightarrow> pyfloat" where
  "float_mul (Fin a) (Fin b) = binary64 (a * b)"
| "float_mul NaN _ = NaN"
| "float_mul _ NaN = NaN"
| "float_mul PInf (Fin b) = inf_of_sign b"
| "float_mul (Fin a) PInf = inf_of_sign a"
| "float_mul NInf (Fin b) = inf_of_sign (- b)"
| "float_mul (Fin a) NInf = inf_of_sign (- a)"
| "float_mul PInf PInf = PInf"
| "float_mul NInf NInf = PInf"
| "float_mul PInf NInf = NInf"
| "float_mul NInf PInf = NInf"

fun float_add :: "pyfloat \<Rightarrow> pyfloat \<Rightarrow> pyfloat" where
  "float_add (Fin a) (Fin b) = binary64 (a + b)"
| "float_add NaN _ = NaN"
| "float_add _ NaN = NaN"
| "float_add PInf NInf = NaN"
| "float_add NInf PInf = NaN"
| "float_add PInf _ = PInf"
| "float_add _ PInf = PInf"
| "float_add NInf _ = NInf"
| "float_add _ NInf = NInf"

text \<open>\<open>n * f\<close> for an integer \<open>n\<close> and a float \<open>f\<close>.\<close>

definition int_times_float :: "int \<Rightarrow> pyfloat \<Rightarrow> py_error + pyfloat" where
  "int_times_float n f = and_then (int_to_float n) (\<lambda>x. Inr (float_mul x f))"

text \<open>The comparisons \<open>x < y\<close> and \<open>x >= y\<close>; every comparison with a NaN is false.\<close>

fun float_lt :: "pyfloat \<Rightarrow> pyfloat \<Rightarrow> bool" where
  "float_lt (Fin a) (Fin b) = (a < b)"
| "float_lt (Fin a) PInf = True"
| "float_lt NInf (Fin b) = True"
| "float_lt NInf PInf = True"
| "float_lt _ _ = False"

fun float_ge :: "pyfloat \<Rightarrow> pyfloat \<Rightarrow> bool" where
  "float_ge (Fin a) (Fin b) = (b \<le> a)"
| "float_ge PInf (Fin b) = True"
| "float_ge (Fin a) NInf = True"
| "float_ge PInf NInf = True"
| "float_ge PInf PInf = True"
| "float_ge NInf NInf = True"
| "float_ge _ _ = False"

text \<open>
  The builtins \<open>min(a, b)\<close> and \<open>max(a, b)\<close>: the first argument is kept unless the
  second is strictly smaller (strictly larger).
\<close>

definition py_min :: "pyfloat \<Rightarrow> pyfloat \<Rightarrow> pyfloat" where
  "py_min a b = (if float_lt b a then b else a)"

definition py_max :: "pyfloat \<Rightarrow> pyfloat \<Rightarrow> pyfloat" where
  "py_max a b = (if float_lt a b then b else a)"

text \<open>\<open>int(f)\<close> truncates towards zero; \<open>math.ceil(f)\<close> rounds up.\<close>

definition py_int :: "pyfloat \<Rightarrow> py_error + int" where
  "py_int f = (case f of
       Fin r \<Rightarrow> Inr (if 0 \<le> r then \<lfloor>r\<rfloor> else \<lceil>r\<rceil>)
     | NaN \<Rightarrow> Inl ValueError
     | _ \<Rightarrow> Inl OverflowError)"


section \<open>Images\<close>

type_synonym path = string

text \<open>
  The imaging library is not part of the repository. An image is its size together with
  a description of where its pixels come from; the library calls used by the source
  (\<open>convert\<close>, the two enhancers, \<open>rotate(90, expand=True)\<close>, \<open>resize\<close>) are the
  constructors of that description and change the size as the library documents.
\<close>

datatype raster =
    Decoded path
  | Enhanced raster
  | Rotated90 raster
  | Resized raster int int

record image =
  size_w :: int
  size_h :: int
  raster_of :: raster

definition apply_enhancements :: "image \<Rightarrow> image" where
  "apply_enhancements img = img\<lparr>raster_of := Enhanced (raster_of img)\<rparr>"

definition rotate90 :: "image \<Rightarrow> image" where
  "rotate90 img =
     \<lparr>size_w = size_h img, size_h = size_w img, raster_of = Rotated90 (raster_of img)\<rparr>"

text \<open>
  \<open>img.resize((new_w, new_h), Image.Resampling.LANCZOS)\<close>: the library refuses a target
  with a side below one pixel and raises \<open>ValueError\<close> (``height and width must be > 0'');
  otherwise it returns an image of exactly the requested size. What the library does when
  it runs out of memory is not modelled.
\<close>

definition resize :: "image \<Rightarrow> int \<times> int \<Rightarrow> py_error + image" where
  "resize img new_size = (case new_size of (new_w, new_h) \<Rightarrow>
     if new_w < 1 \<or> new_h < 1 then Inl ValueError
     else Inr \<lparr>size_w = new_w, size_h = new_h,
               raster_of = Resized (raster_of img) new_w new_h\<rparr>)"

section \<open>Configuration\<close>

definition DPI :: int where
  "DPI = 300"

definition OUTPUT_WIDTH_PX :: int where
  "OUTPUT_WIDTH_PX = 6 * DPI"

definition OUTPUT_HEIGHT_PX :: int where
  "OUTPUT_HEIGHT_PX = 4 * DPI"

text \<open>
  The sizes the imaging library can hold: it stores the width and the height of an image
  in C integers, so both are below \<open>2^31\<close>; a decoded image has at least one pixel.
\<close>

definition valid_dim :: "int \<Rightarrow> bool" where
  "valid_dim n = (0 < n \<and> n < 2 ^ 31)"

section \<open>The quadrant fitter\<close>

text \<open>\<open>min(quad_width / w, quad_height / h)\<close>\<close>

definition min_scale :: "int \<Rightarrow> int \<Rightarrow> int \<Rightarrow> int \<Rightarrow> py_error + pyfloat" where
  "min_scale quad_width quad_height w h =
     and_then (true_div quad_width w) (\<lambda>a.
     and_then (true_div quad_height h) (\<lambda>b.
     Inr (py_min a b)))"

text \<open>\<open>(w * scale) * (h * scale)\<close>\<close>

definition scaled_area :: "int \<Rightarrow> int \<Rightarrow> pyfloat \<Rightarrow> py_error + pyfloat" where
  "scaled_area w h scale =
     and_then (int_times_float w scale) (\<lambda>a.
     and_then (int_times_float h scale) (\<lambda>b.
     Inr (float_mul a b)))"

text \<open>\<open>int(w * scale), int(h * scale)\<close>\<close>

definition scaled_size :: "int \<Rightarrow> int \<Rightarrow> pyfloat \<Rightarrow> py_error + int \<times> int" where
  "scaled_size w h scale =
     and_then (int_times_float w scale) (\<lambda>a.
     and_then (py_int a) (\<lambda>new_w.
     and_then (int_times_float h scale) (\<lambda>b.
     and_then (py_int b) (\<lambda>new_h.
     Inr (new_w, new_h)))))"

text \<open>
  The test of \<open>fit_image_to_quad\<close>: the two scales, the two covered areas, and whether
  the source takes the branch that rotates.
\<close>

definition area_normal :: "image \<Rightarrow> int \<Rightarrow> int \<Rightarrow> py_error + pyfloat" where
  "area_normal img quad_width quad_height =
     and_then (min_scale quad_width quad_height (size_w img) (size_h img))
       (scaled_area (size_w img) (size_h img))"

definition area_rotated :: "image \<Rightarrow> int \<Rightarrow> int \<Rightarrow> py_error + pyfloat" where
  "area_rotated img quad_width quad_height =
     and_then (min_scale quad_width quad_height (size_h img) (size_w img))
       (scaled_area (size_h img) (size_w img))"

definition fit_image_to_quad :: "image \<Rightarrow> int \<Rightarrow> int \<Rightarrow> py_error + image" where
  "fit_image_to_quad img quad_width quad_height =
     (let img_w = size_w img; img_h = size_h img in
      and_then (min_scale quad_width quad_height img_w img_h) (\<lambda>scale_normal.
      and_then (min_scale quad_width quad_height img_h img_w) (\<lambda>scale_rotated.
      and_then (scaled_area img_w img_h scale_normal) (\<lambda>a_normal.
      and_then (scaled_area img_h img_w scale_rotated) (\<lambda>a_rotated.
        if float_ge a_normal a_rotated then
          and_then (scaled_size img_w img_h scale_normal) (\<lambda>new_size.
          resize img new_size)
        else
          (let img_rotated = rotate90 img;
               img_w = size_w img_rotated; img_h = size_h img_rotated in
           and_then (min_scale quad_width quad_height img_w img_h) (\<lambda>scale.
           and_then (scaled_size img_w img_h scale) (\<lambda>new_size.
           resize img_rotated new_size))))))))"

section \<open>Sheets\<close>

text \<open>
  A sheet is a canvas of pixels. A pixel is either the white background or a pixel of a
  pasted image, named by the image's raster and the coordinates inside that image.
  \<open>paste\<close> overwrites the box of the pasted image, clipped to the canvas, and nothing
  else.
\<close>

datatype pixel = White | Pixel raster int int

record sheet =
  sheet_w :: int
  sheet_h :: int
  pixel_at :: "int \<Rightarrow> int \<Rightarrow> pixel"

definition new_sheet :: "int \<Rightarrow> int \<Rightarrow> sheet" where
  "new_sheet w h = \<lparr>sheet_w = w, sheet_h = h, pixel_at = (\<lambda>x y. White)\<rparr>"

definition in_box :: "int \<times> int \<Rightarrow> int \<times> int \<Rightarrow> int \<Rightarrow> int \<Rightarrow> bool" where
  "in_box origin extent x y = (case origin of (x0, y0) \<Rightarrow> case extent of (w, h) \<Rightarrow>
     x0 \<le> x \<and> x < x0 + w \<and> y0 \<le> y \<and> y < y0 + h)"

text \<open>
  The pixel that a pasted image leaves at \<open>(x, y)\<close>: its own pixel inside its box, the
  old pixel outside.
\<close>

definition pasted_pixel :: "image \<Rightarrow> int \<times> int \<Rightarrow> pixel \<Rightarrow> int \<Rightarrow> int \<Rightarrow> pixel" where
  "pasted_pixel img pos old x y = (case pos of (paste_x, paste_y) \<Rightarrow>
     if in_box (paste_x, paste_y) (size_w img, size_h img) x y
     then Pixel (raster_of img) (x - paste_x) (y - paste_y)
     else old)"

definition paste :: "sheet \<Rightarrow> image \<Rightarrow> int \<times> int \<Rightarrow> sheet" where
  "paste sheet img pos =
     sheet\<lparr>pixel_at := (\<lambda>x y.
       if in_box (0, 0) (sheet_w sheet, sheet_h sheet) x y
       then pasted_pixel img pos (pixel_at sheet x y) x y
       else pixel_at sheet x y)\<rparr>"

section \<open>The world outside\<close>

text \<open>
  What the compositors read and write. \<open>decodable p\<close> is the size of the image that
  \<open>Image.open(p).convert('RGB')\<close> yields, or \<open>None\<close> when that raises; \<open>writable p\<close>
  tells whether \<open>sheet.save(p, ...)\<close> succeeds; \<open>files\<close> holds what has been saved.
\<close>

record saved_file =
  saved_sheet :: sheet
  saved_dpi :: "int \<times> int"
  saved_quality :: int

record world =
  decodable :: "path \<Rightarrow> (int \<times> int) option"
  writable :: "path \<Rightarrow> bool"
  files :: "path \<Rightarrow> saved_file option"

definition open_rgb :: "world \<Rightarrow> path \<Rightarrow> image option" where
  "open_rgb w img_path = (case decodable w img_path of
       None \<Rightarrow> None
     | Some (img_w, img_h) \<Rightarrow>
         Some \<lparr>size_w = img_w, size_h = img_h, raster_of = Decoded img_path\<rparr>)"

definition save :: "world \<Rightarrow> path \<Rightarrow> sheet \<Rightarrow> py_error + world" where
  "save w output_path sheet =
     (if writable w output_path
      then Inr (w\<lparr>files := (files w)(output_path \<mapsto>
             \<lparr>saved_sheet = sheet, saved_dpi = (DPI, DPI), saved_quality = 95\<rparr>)\<rparr>)
      else Inl OSError)"

section \<open>The sheet compositors\<close>

text \<open>
  The centering logic: where the fitted image goes inside the region at \<open>quad_pos\<close>.
\<close>

definition centred_at :: "int \<times> int \<Rightarrow> int \<Rightarrow> int \<Rightarrow> image \<Rightarrow> int \<times> int" where
  "centred_at quad_pos quad_width quad_height img_resized =
     (case quad_pos of (quad_x, quad_y) \<Rightarrow>
        (let new_w = size_w img_resized; new_h = size_h img_resized;
             paste_x = quad_x + (quad_width - new_w) div 2;
             paste_y = quad_y + (quad_height - new_h) div 2
         in (paste_x, paste_y)))"

text \<open>
  The step shared by the two pasting loops: fit the image to the region, centre the
  result inside the region, paste.
\<close>

definition place_image :: "sheet \<Rightarrow> image \<Rightarrow> int \<Rightarrow> int \<Rightarrow> int \<times> int \<Rightarrow> py_error + sheet" where
  "place_image sheet img quad_width quad_height quad_pos =
     and_then (fit_image_to_quad img quad_width quad_height) (\<lambda>img_resized.
       Inr (paste sheet img_resized (centred_at quad_pos quad_width quad_height img_resized)))"

subsection \<open>\<open>create_2x2_sheet\<close>\<close>




subsection \<open>\<open>_calculate_layout_area\<close>\<close>

record layout_result =
  total_area :: int
  layout :: string

text \<open>The loop body adds \<open>max(area_normal, area_rotated)\<close> of one image to the total.\<close>

fun sum_areas :: "int \<Rightarrow> int \<Rightarrow> (image \<times> path) list \<Rightarrow> pyfloat \<Rightarrow> py_error + pyfloat" where
  "sum_areas quad_width quad_height [] area_sum = Inr area_sum"
| "sum_areas quad_width quad_height ((img, img_path) # rest) area_sum =
     (let img_w = size_w img; img_h = size_h img in
      case
        and_then (min_scale quad_width quad_height img_w img_h) (\<lambda>scale_normal.
        and_then (min_scale quad_width quad_height img_h img_w) (\<lambda>scale_rotated.
        and_then (scaled_area img_w img_h scale_normal) (\<lambda>a_normal.
        and_then (scaled_area img_h img_w scale_rotated) (\<lambda>a_rotated.
        Inr (float_add area_sum (py_max a_normal a_rotated))))))
      of Inl e \<Rightarrow> Inl e
       | Inr area_sum' \<Rightarrow> sum_areas quad_width quad_height rest area_sum')"

definition calculate_layout_area :: "(image \<times> path) list \<Rightarrow> string \<Rightarrow> py_error + layout_result" where
  "calculate_layout_area processed_images lay =
     (let quad_width = (if lay = ''1x2'' then OUTPUT_WIDTH_PX else OUTPUT_WIDTH_PX div 2);
          quad_height = (if lay = ''1x2'' then OUTPUT_HEIGHT_PX div 2 else OUTPUT_HEIGHT_PX)
      in and_then (sum_areas quad_width quad_height (take 2 processed_images) (Fin 0)) (\<lambda>area_sum.
         and_then (py_int area_sum) (\<lambda>n.
         Inr \<lparr>total_area = n, layout = lay\<rparr>)))"

subsection \<open>\<open>create_1x2_sheet\<close>\<close>

text \<open>The first loop: open and enhance up to two images, skipping what does not decode.\<close>

fun load_images :: "world \<Rightarrow> path list \<Rightarrow> (image \<times> path) list" where
  "load_images w [] = []"
| "load_images w (img_path # rest) =
     (case open_rgb w img_path of
        None \<Rightarrow> load_images w rest
      | Some img \<Rightarrow> (apply_enhancements img, img_path) # load_images w rest)"

text \<open>
  The choice between the two partitions: the name of the layout, the size of its two
  regions and their positions.
\<close>

record partition =
  chosen :: string
  region_w :: int
  region_h :: int
  positions :: "(int \<times> int) list"

definition choose_layout :: "(image \<times> path) list \<Rightarrow> py_error + partition" where
  "choose_layout processed_images =
     and_then (calculate_layout_area processed_images ''1x2'') (\<lambda>layout_1x2.
     and_then (calculate_layout_area processed_images ''2x1'') (\<lambda>layout_2x1.
       if total_area layout_2x1 > total_area layout_1x2 then
         (let quad_width = OUTPUT_WIDTH_PX div 2; quad_height = OUTPUT_HEIGHT_PX
          in Inr \<lparr>chosen = ''2x1'', region_w = quad_width, region_h = quad_height,
                   positions = [(0, 0), (quad_width, 0)]\<rparr>)
       else
         (let quad_width = OUTPUT_WIDTH_PX; quad_height = OUTPUT_HEIGHT_PX div 2
          in Inr \<lparr>chosen = ''1x2'', region_w = quad_width, region_h = quad_height,
                   positions = [(0, 0), (0, quad_height)]\<rparr>)))"

text \<open>The loop over \<open>enumerate(processed_images)\<close>, which stops at the third image.\<close>

fun fill_1x2 :: "partition \<Rightarrow> nat \<Rightarrow> (image \<times> path) list \<Rightarrow> sheet \<Rightarrow> py_error + sheet" where
  "fill_1x2 p i [] sheet = Inr sheet"
| "fill_1x2 p i ((img, img_path) # rest) sheet =
     (if 2 \<le> i then Inr sheet
      else case place_image sheet img (region_w p) (region_h p) (positions p ! i) of
          Inl e \<Rightarrow> Inl e
        | Inr sheet' \<Rightarrow> fill_1x2 p (Suc i) rest sheet')"

text \<open>The canvas that \<open>create_1x2_sheet\<close> saves, for at least one processed image.\<close>

definition compose_1x2 :: "(image \<times> path) list \<Rightarrow> py_error + sheet" where
  "compose_1x2 processed_images =
     (if length processed_images = 1 then
        (case processed_images ! 0 of (img, img_path) \<Rightarrow>
           (let sheet = new_sheet OUTPUT_WIDTH_PX OUTPUT_HEIGHT_PX in
            and_then (fit_image_to_quad img OUTPUT_WIDTH_PX OUTPUT_HEIGHT_PX) (\<lambda>img_resized.
              (let new_w = size_w img_resized; new_h = size_h img_resized;
                   paste_x = (OUTPUT_WIDTH_PX - new_w) div 2;
                   paste_y = (OUTPUT_HEIGHT_PX - new_h) div 2
               in Inr (paste sheet img_resized (paste_x, paste_y))))))
      else
        and_then (choose_layout processed_images) (\<lambda>p.
          fill_1x2 p 0 processed_images (new_sheet OUTPUT_WIDTH_PX OUTPUT_HEIGHT_PX)))"

definition create_1x2_sheet :: "world \<Rightarrow> path list \<Rightarrow> path \<Rightarrow> bool \<times> world" where
  "create_1x2_sheet w image_paths output_path =
     (let processed_images = load_images w (take 2 image_paths) in
      if processed_images = [] then (False, w)
      else case compose_1x2 processed_images of
          Inl e \<Rightarrow> (False, w)
        | Inr sheet \<Rightarrow>
            (case save w output_path sheet of
               Inl e \<Rightarrow> (False, w)
             | Inr w' \<Rightarrow> (True, w')))"

section \<open>The batch scheduler\<close>









section \<open>Example inputs\<close>

text \<open>A world in which no file decodes and every path can be written.\<close>

definition nothing_decodes :: world where
  "nothing_decodes =
     \<lparr>decodable = (\<lambda>p. None), writable = (\<lambda>p. True), files = (\<lambda>p. None)\<rparr>"

text \<open>A decoded photo, 3000 pixels wide and 2000 pixels high.\<close>

definition example_photo :: image where
  "example_photo = \<lparr>size_w = 3000, size_h = 2000, raster_of = Decoded ''photo.jpg''\<rparr>"

text \<open>Two processed images of the same size, two pixels wide and one pixel high.\<close>

definition two_by_one :: "(image \<times> path) list" where
  "two_by_one =
     [(\<lparr>size_w = 2, size_h = 1, raster_of = Enhanced (Decoded ''a.jpg'')\<rparr>, ''a.jpg''),
      (\<lparr>size_w = 2, size_h = 1, raster_of = Enhanced (Decoded ''b.jpg'')\<rparr>, ''b.jpg'')]"






chapter \<open>Properties\<close>

section \<open>Basic facts\<close>

lemma and_then_simps [simp]:
  "and_then (Inl e) f = Inl e"
  "and_then (Inr x) f = f x"
  by (simp_all add: and_then_def)

lemma canvas_size [simp]:
  "OUTPUT_WIDTH_PX = 1800" "OUTPUT_HEIGHT_PX = 1200" "DPI = 300"
  by (simp_all add: OUTPUT_WIDTH_PX_def OUTPUT_HEIGHT_PX_def DPI_def)

section \<open>Rounding\<close>

text \<open>
  The binary exponent is correct, rounding to 53 bits has a relative error of at most
  \<open>2^-53\<close> on normal numbers, and a number that has at most 53 significant bits is not
  changed.
\<close>

lemma pow2_powi: "pow2 k = 2 powi k"
  by (simp add: pow2_def power_int_def power_inverse field_simps)

lemma pow2_pos [simp]: "0 < pow2 k"
  by (simp add: pow2_powi zero_less_power_int)

lemma pow2_add: "pow2 (a + b) = pow2 a * pow2 b"
  by (simp add: pow2_powi power_int_add)

lemma pow2_mono: "a \<le> b \<Longrightarrow> pow2 a \<le> pow2 b"
  by (simp add: pow2_powi power_int_increasing)

lemma pow2_strict_mono: "a < b \<Longrightarrow> pow2 a < pow2 b"
  by (simp add: pow2_powi power_int_strict_increasing)

lemma pow2_less_cancel: "pow2 a < pow2 b \<Longrightarrow> a < b"
  using pow2_mono [of b a] by (cases "a < b") auto

lemma pow2_nat: "pow2 (int n) = 2 ^ n"
  by (simp add: pow2_def)

lemma pow2_0 [simp]: "pow2 0 = 1"
  by (simp add: pow2_def)

lemma bit_length_bounds:
  "0 < n \<Longrightarrow> 1 \<le> bit_length n \<and> 2 ^ nat (bit_length n - 1) \<le> n \<and> n < 2 ^ nat (bit_length n)"
proof (induction n rule: bit_length.induct)
  case (1 n)
  show ?case
  proof (cases "n = 1")
    case True
    then have "bit_length n = 1"
      by (simp add: bit_length.simps [of 1] bit_length.simps [of 0])
    with True show ?thesis by simp
  next
    case False
    with "1.prems" have half: "0 < n div 2" by simp
    from "1.prems" have "\<not> n \<le> 0" by simp
    from "1.IH" [OF this half]
    have ih: "1 \<le> bit_length (n div 2)"
      "2 ^ nat (bit_length (n div 2) - 1) \<le> n div 2"
      "n div 2 < 2 ^ nat (bit_length (n div 2))"
      by simp_all
    from "1.prems" have bl: "bit_length n = 1 + bit_length (n div 2)"
      by (simp add: bit_length.simps [of n])
    from ih(1) have e1: "nat (bit_length n - 1) = Suc (nat (bit_length (n div 2) - 1))"
      using bl by simp
    from ih(1) have e2: "nat (bit_length n) = Suc (nat (bit_length (n div 2)))"
      using bl by simp
    have "2 * 2 ^ nat (bit_length (n div 2) - 1) \<le> n"
      using ih(2) by linarith
    moreover have "n < 2 * 2 ^ nat (bit_length (n div 2))"
      using ih(3) by linarith
    ultimately show ?thesis using bl ih(1) e1 e2 by simp
  qed
qed

lemma ilog2_bounds:
  assumes "0 < x"
  shows "pow2 (ilog2 x) \<le> x \<and> x < pow2 (ilog2 x + 1)"
proof -
  obtain p q where pq: "quotient_of x = (p, q)" by (cases "quotient_of x")
  then have q: "0 < q" and x: "x = of_int p / of_int q"
    by (simp_all add: quotient_of_denom_pos quotient_of_div)
  with assms have p: "0 < p" by (simp add: zero_less_divide_iff)
  define bp where "bp = bit_length p"
  define bq where "bq = bit_length q"
  define d where "d = bp - bq"
  from bit_length_bounds [OF p] have bp: "1 \<le> bp" "2 ^ nat (bp - 1) \<le> p" "p < 2 ^ nat bp"
    by (simp_all add: bp_def)
  from bit_length_bounds [OF q] have bq: "1 \<le> bq" "2 ^ nat (bq - 1) \<le> q" "q < 2 ^ nat bq"
    by (simp_all add: bq_def)
  have P1: "pow2 (bp - 1) \<le> of_int p"
  proof -
    have "(of_int (2 ^ nat (bp - 1)) :: rat) \<le> of_int p" using bp(2) by (simp only: of_int_le_iff)
    then show ?thesis using bp(1) by (simp add: pow2_def)
  qed
  have P2: "of_int p < pow2 bp"
  proof -
    have "(of_int p :: rat) < of_int (2 ^ nat bp)" using bp(3) by (simp only: of_int_less_iff)
    then show ?thesis using bp(1) by (simp add: pow2_def)
  qed
  have Q1: "pow2 (bq - 1) \<le> of_int q"
  proof -
    have "(of_int (2 ^ nat (bq - 1)) :: rat) \<le> of_int q" using bq(2) by (simp only: of_int_le_iff)
    then show ?thesis using bq(1) by (simp add: pow2_def)
  qed
  have Q2: "of_int q < pow2 bq"
  proof -
    have "(of_int q :: rat) < of_int (2 ^ nat bq)" using bq(3) by (simp only: of_int_less_iff)
    then show ?thesis using bq(1) by (simp add: pow2_def)
  qed
  have qpos: "(0::rat) < of_int q" using q by simp
  have upper: "x < pow2 (d + 1)"
  proof -
    have "of_int p < pow2 (d + 1) * pow2 (bq - 1)"
      using P2 by (simp add: pow2_add [symmetric] d_def)
    also have "\<dots> \<le> pow2 (d + 1) * of_int q"
      using Q1 by (simp add: mult_left_mono less_imp_le)
    finally show ?thesis using qpos by (simp add: x pos_divide_less_eq)
  qed
  have lower: "pow2 (d - 1) < x"
  proof -
    have "pow2 (d - 1) * of_int q < pow2 (d - 1) * pow2 bq"
      using Q2 by (simp add: mult_strict_left_mono)
    also have "\<dots> = pow2 (bp - 1)"
      by (simp add: pow2_add [symmetric] d_def)
    also have "\<dots> \<le> of_int p" by (rule P1)
    finally show ?thesis using qpos by (simp add: x pos_less_divide_eq)
  qed
  have il: "ilog2 x = (if pow2 d \<le> x then d else d - 1)"
    by (simp add: ilog2_def pq d_def bp_def bq_def)
  show ?thesis
  proof (cases "pow2 d \<le> x")
    case True
    with il upper show ?thesis by simp
  next
    case False
    with il lower show ?thesis by (simp add: less_imp_le)
  qed
qed

lemma ilog2_less: "0 < x \<Longrightarrow> x < pow2 k \<Longrightarrow> ilog2 x < k"
  using ilog2_bounds [of x] pow2_less_cancel [of "ilog2 x" k] by simp

lemma ilog2_ge: "pow2 k \<le> x \<Longrightarrow> k \<le> ilog2 x"
proof -
  assume a: "pow2 k \<le> x"
  then have "0 < x" using pow2_pos [of k] by linarith
  from ilog2_bounds [OF this] a have "pow2 k < pow2 (ilog2 x + 1)" by linarith
  from pow2_less_cancel [OF this] show ?thesis by simp
qed

lemma ilog2_zero: "ilog2 0 < 1024"
  by (simp add: ilog2_def bit_length.simps [of 0] bit_length.simps [of 1] pow2_def)


lemma round_half_even_bounds:
  "of_int (round_half_even y) \<le> y + 1 / 2 \<and> y - 1 / 2 \<le> of_int (round_half_even y)"
proof -
  define f where "f = \<lfloor>y\<rfloor>"
  define r where "r = y - of_int f"
  have r: "0 \<le> r" "r < 1" unfolding r_def f_def by linarith+
  have y: "y = of_int f + r" by (simp add: r_def)
  have "round_half_even y = half_even f r"
    by (simp add: round_half_even_def f_def r_def)
  then show ?thesis using r unfolding y half_even_def by auto
qed

lemma round_half_even_of_int [simp]: "round_half_even (of_int m) = m"
  by (simp add: round_half_even_def half_even_def)

lemma round_half_even_nonneg: "0 \<le> y \<Longrightarrow> 0 \<le> round_half_even y"
  by (auto simp add: round_half_even_def half_even_def)

lemma round_to_unit_bounds:
  assumes "0 < u"
  shows "round_to_unit x u \<le> x + u / 2 \<and> x - u / 2 \<le> round_to_unit x u"
proof -
  from round_half_even_bounds [of "x / u"]
  have a: "of_int (round_half_even (x / u)) \<le> x / u + 1 / 2"
    and b: "x / u - 1 / 2 \<le> of_int (round_half_even (x / u))" by simp_all
  from a assms have "of_int (round_half_even (x / u)) * u \<le> (x / u + 1 / 2) * u"
    by (simp add: mult_right_mono less_imp_le)
  moreover from b assms have "(x / u - 1 / 2) * u \<le> of_int (round_half_even (x / u)) * u"
    by (simp add: mult_right_mono less_imp_le)
  moreover have "(x / u + 1 / 2) * u = x + u / 2" "(x / u - 1 / 2) * u = x - u / 2"
    using assms by (simp_all add: field_simps)
  ultimately show ?thesis by (simp add: round_to_unit_def)
qed

lemma round_pos_close:
  assumes "pow2 (- 1022) \<le> x"
  shows "x * (1 - pow2 (- 53)) \<le> round_pos x \<and> round_pos x \<le> x * (1 + pow2 (- 53))"
proof -
  have xpos: "0 < x" using assms pow2_pos [of "- 1022"] by linarith
  from ilog2_ge [OF assms] have e: "- 1022 \<le> ilog2 x" .
  then have k: "ulp_exp x = ilog2 x - 52" by (simp add: ulp_exp_def)
  define u where "u = pow2 (ulp_exp x)"
  have upos: "0 < u" by (simp add: u_def)
  have half: "pow2 (- 52) = 2 * pow2 (- 53)" by (simp add: pow2_def)
  have "u = pow2 (ilog2 x) * pow2 (- 52)"
    by (simp add: u_def k pow2_add [symmetric])
  also have "\<dots> \<le> x * pow2 (- 52)"
    using ilog2_bounds [OF xpos] by (simp add: mult_right_mono less_imp_le)
  finally have "u \<le> 2 * (x * pow2 (- 53))" by (simp add: half)
  then have u: "u / 2 \<le> x * pow2 (- 53)" by simp
  from round_to_unit_bounds [OF upos, of x] u
  show ?thesis by (simp add: round_pos_def u_def [symmetric] algebra_simps)
qed

lemma round_pos_exact:
  assumes "0 < x" and "x = of_int n * pow2 j" and "- 1074 \<le> j" and "x < pow2 (j + 53)"
  shows "round_pos x = x"
proof -
  from ilog2_less [OF assms(1) assms(4)] have "ilog2 x - 52 \<le> j" by simp
  with assms(3) have k: "ulp_exp x \<le> j" by (simp add: ulp_exp_def)
  define u where "u = pow2 (ulp_exp x)"
  have upos: "0 < u" by (simp add: u_def)
  define m where "m = nat (j - ulp_exp x)"
  have "pow2 j = pow2 (int m) * pow2 (ulp_exp x)"
    using k by (simp add: pow2_add [symmetric] m_def)
  then have pj: "pow2 j = 2 ^ m * u" by (simp add: pow2_nat u_def)
  have xu: "x = of_int (n * 2 ^ m) * u"
    by (simp add: assms(2) pj)
  then have "x / u = of_int (n * 2 ^ m)" using upos by simp
  then have "round_half_even (x / u) = n * 2 ^ m"
    by (simp only: round_half_even_of_int)
  then have "round_to_unit x u = x"
    unfolding round_to_unit_def using xu by simp
  then show ?thesis by (simp add: round_pos_def u_def)
qed

lemma finite_or_inf_Fin: "0 \<le> r \<Longrightarrow> r < pow2 1024 \<Longrightarrow> finite_or_inf r = Fin r"
  using ilog2_less [of r 1024] ilog2_zero by (cases "r = 0") (simp_all add: finite_or_inf_def)

lemma one_plus_u: "pow2 1023 * (1 + pow2 (- 53)) < pow2 1024"
proof -
  have "(1 + pow2 (- 53) :: rat) < 2" by (simp add: pow2_def)
  then have "pow2 1023 * (1 + pow2 (- 53)) < pow2 1023 * 2"
    by (simp only: mult_strict_left_mono pow2_pos)
  also have "\<dots> = pow2 1023 * pow2 1" by (simp add: pow2_def)
  also have "\<dots> = pow2 1024" by (simp add: pow2_add [symmetric])
  finally show ?thesis .
qed

lemma binary64_close:
  assumes "pow2 (- 1022) \<le> x" and "x \<le> pow2 1023"
  shows "\<exists>r. binary64 x = Fin r \<and> x * (1 - pow2 (- 53)) \<le> r \<and> r \<le> x * (1 + pow2 (- 53))"
proof -
  have xpos: "0 < x" using assms(1) pow2_pos [of "- 1022"] by linarith
  from round_pos_close [OF assms(1)]
  have lo: "x * (1 - pow2 (- 53)) \<le> round_pos x" and hi: "round_pos x \<le> x * (1 + pow2 (- 53))"
    by simp_all
  have "(0::rat) \<le> 1 - pow2 (- 53)" by (simp add: pow2_def)
  with xpos have "0 \<le> x * (1 - pow2 (- 53))" by (simp add: less_imp_le)
  with lo have nonneg: "0 \<le> round_pos x" by linarith
  have "(0::rat) \<le> 1 + pow2 (- 53)" using pow2_pos [of "- 53"] by linarith
  from mult_right_mono [OF assms(2) this]
  have "x * (1 + pow2 (- 53)) \<le> pow2 1023 * (1 + pow2 (- 53))" .
  with hi one_plus_u have "round_pos x < pow2 1024" by linarith
  from finite_or_inf_Fin [OF nonneg this] xpos lo hi show ?thesis
    by (simp add: binary64_def round_binary64_def)
qed

lemma binary64_exact:
  assumes "0 < x" and "x = of_int n * pow2 j" and "- 1074 \<le> j" and "x < pow2 (j + 53)"
    and "x < pow2 1024"
  shows "binary64 x = Fin x"
  using round_pos_exact [OF assms(1-4)] finite_or_inf_Fin [of x] assms(1,5)
  by (simp add: binary64_def round_binary64_def)

lemma binary64_of_int:
  assumes "0 < n" and "n < 2 ^ 53"
  shows "binary64 (of_int n) = Fin (of_int n)"
proof -
  have lt: "(of_int n :: rat) < 2 ^ 53"
    using assms(2) by (metis of_int_less_iff of_int_numeral of_int_power)
  have a: "(of_int n :: rat) < pow2 (0 + 53)" using lt by (simp add: pow2_def)
  have "(2::rat) ^ 53 \<le> 2 ^ 1024" by (rule power_increasing) simp_all
  with lt have b: "(of_int n :: rat) < pow2 1024" by (simp add: pow2_def)
  show ?thesis
    using binary64_exact [of "of_int n" n 0] assms(1) a b by simp
qed

lemma int_to_float_exact: "0 < n \<Longrightarrow> n < 2 ^ 53 \<Longrightarrow> int_to_float n = Inr (Fin (of_int n))"
  by (simp add: int_to_float_def binary64_of_int)

section \<open>The fitter on sizes the imaging library can hold\<close>

lemma u_small: "(0::rat) < pow2 (- 53)" "pow2 (- 53) < (1::rat)" "(1::rat) / 2 \<le> 1 - pow2 (- 53)"
  "1 + pow2 (- 53) \<le> (2::rat)"
  by (simp_all add: pow2_def)

lemma valid_dim_rat:
  assumes "valid_dim n"
  shows "(1::rat) \<le> of_int n" "(of_int n :: rat) < 2 ^ 31" "(0::rat) < of_int n"
proof -
  from assms have a: "1 \<le> n" "n < 2 ^ 31" by (simp_all add: valid_dim_def)
  from a(1) show "(1::rat) \<le> of_int n" by simp
  then show "(0::rat) < of_int n" by linarith
  from a(2) show "(of_int n :: rat) < 2 ^ 31"
    by (metis of_int_less_iff of_int_numeral of_int_power)
qed

text \<open>Rounding a value between \<open>2^-200\<close> and \<open>2^200\<close> gives a finite float close to it.\<close>

lemma binary64_mid:
  assumes "pow2 (- 200) \<le> x" and "x \<le> pow2 200"
  shows "\<exists>r. binary64 x = Fin r \<and> x * (1 - pow2 (- 53)) \<le> r \<and> r \<le> x * (1 + pow2 (- 53))
             \<and> x / 2 \<le> r \<and> r \<le> 2 * x"
proof -
  have "pow2 (- 1022) \<le> pow2 (- 200)" "pow2 200 \<le> pow2 1023"
    by (rule pow2_mono, simp)+
  with assms have "pow2 (- 1022) \<le> x" "x \<le> pow2 1023" by linarith+
  from binary64_close [OF this] obtain r where r: "binary64 x = Fin r"
    "x * (1 - pow2 (- 53)) \<le> r" "r \<le> x * (1 + pow2 (- 53))" by blast
  have xpos: "0 < x" using assms(1) pow2_pos [of "- 200"] by linarith
  have "x * (1 / 2) \<le> x * (1 - pow2 (- 53))"
    using xpos u_small(3) by (simp only: mult_left_mono less_imp_le)
  moreover have "x * (1 + pow2 (- 53)) \<le> x * 2"
    using xpos u_small(4) by (simp only: mult_left_mono less_imp_le)
  ultimately have "x / 2 \<le> r" "r \<le> 2 * x" using r(2,3) by simp_all
  with r show ?thesis by blast
qed

lemma true_div_close:
  assumes "valid_dim a" and "valid_dim b"
  shows "\<exists>q. true_div a b = Inr (Fin q)
           \<and> of_int a / of_int b * (1 - pow2 (- 53)) \<le> q
           \<and> q \<le> of_int a / of_int b * (1 + pow2 (- 53))
           \<and> pow2 (- 32) \<le> q \<and> q \<le> pow2 32"
proof -
  note A = valid_dim_rat [OF assms(1)] and B = valid_dim_rat [OF assms(2)]
  define x :: rat where "x = of_int a / of_int b"
  have lo: "pow2 (- 31) \<le> x"
  proof -
    have "1 / 2 ^ 31 \<le> 1 / (of_int b :: rat)"
      using B by (simp add: frac_le less_imp_le)
    also have "\<dots> \<le> of_int a / of_int b"
      using A(1) B(3) by (simp add: divide_right_mono less_imp_le)
    finally show ?thesis by (simp add: x_def pow2_def)
  qed
  have hi: "x \<le> pow2 31"
  proof -
    have "of_int a / of_int b \<le> (of_int a :: rat) / 1"
      using A(3) B(1) by (intro divide_left_mono) simp_all
    with A(2) show ?thesis by (simp add: x_def pow2_def)
  qed
  have "pow2 (- 200) \<le> pow2 (- 31)" "pow2 31 \<le> pow2 200" by (rule pow2_mono, simp)+
  with lo hi have "pow2 (- 200) \<le> x" "x \<le> pow2 200" by linarith+
  from binary64_mid [OF this] obtain q where q: "binary64 x = Fin q"
    "x * (1 - pow2 (- 53)) \<le> q" "q \<le> x * (1 + pow2 (- 53))" "x / 2 \<le> q" "q \<le> 2 * x"
    by blast
  have "pow2 (- 32) = pow2 (- 31) / 2" "pow2 32 = 2 * pow2 31" by (simp_all add: pow2_def)
  with lo hi q(4,5) have "pow2 (- 32) \<le> q" "q \<le> pow2 32" by linarith+
  moreover from assms(2) have "b \<noteq> 0" by (simp add: valid_dim_def)
  ultimately show ?thesis using q(1-3) by (simp add: true_div_def x_def)
qed


lemma py_min_Fin: "py_min (Fin a) (Fin b) = Fin (if b < a then b else a)"
  by (simp add: py_min_def)

lemma min_scale_close:
  assumes "valid_dim quad_width" and "valid_dim quad_height" and "valid_dim w" and "valid_dim h"
  shows "\<exists>s. min_scale quad_width quad_height w h = Inr (Fin s)
           \<and> s \<le> of_int quad_width / of_int w * (1 + pow2 (- 53))
           \<and> s \<le> of_int quad_height / of_int h * (1 + pow2 (- 53))
           \<and> pow2 (- 32) \<le> s \<and> s \<le> pow2 32"
proof -
  from true_div_close [OF assms(1) assms(3)] obtain a where a:
    "true_div quad_width w = Inr (Fin a)"
    "a \<le> of_int quad_width / of_int w * (1 + pow2 (- 53))" "pow2 (- 32) \<le> a" "a \<le> pow2 32"
    by blast
  from true_div_close [OF assms(2) assms(4)] obtain b where b:
    "true_div quad_height h = Inr (Fin b)"
    "b \<le> of_int quad_height / of_int h * (1 + pow2 (- 53))" "pow2 (- 32) \<le> b" "b \<le> pow2 32"
    by blast
  have "min_scale quad_width quad_height w h = Inr (Fin (if b < a then b else a))"
    by (simp add: min_scale_def a(1) b(1) py_min_Fin)
  then show ?thesis using a(2-4) b(2-4) by auto
qed

lemma int_times_float_close:
  assumes "valid_dim n" and "pow2 (- 32) \<le> s" and "s \<le> pow2 32"
  shows "\<exists>a. int_times_float n (Fin s) = Inr (Fin a)
           \<and> of_int n * s * (1 - pow2 (- 53)) \<le> a \<and> a \<le> of_int n * s * (1 + pow2 (- 53))
           \<and> pow2 (- 33) \<le> a \<and> a \<le> pow2 64"
proof -
  note N = valid_dim_rat [OF assms(1)]
  from assms(1) have n: "0 < n" "n < 2 ^ 53" by (simp_all add: valid_dim_def)
  define x where "x = of_int n * s"
  have spos: "0 < s" using assms(2) pow2_pos [of "- 32"] by linarith
  have lo: "pow2 (- 32) \<le> x"
  proof -
    have "1 * s \<le> of_int n * s" using N(1) spos by (simp only: mult_right_mono less_imp_le)
    with assms(2) show ?thesis by (simp add: x_def)
  qed
  have hi: "x \<le> pow2 63"
  proof -
    have "of_int n * s \<le> 2 ^ 31 * pow2 32"
      using N(2,3) assms(3) spos by (intro mult_mono) simp_all
    also have "\<dots> = pow2 31 * pow2 32" by (simp add: pow2_def)
    also have "\<dots> = pow2 63" by (simp add: pow2_add [symmetric])
    finally show ?thesis by (simp add: x_def)
  qed
  have "pow2 (- 200) \<le> pow2 (- 32)" "pow2 63 \<le> pow2 200" by (rule pow2_mono, simp)+
  with lo hi have "pow2 (- 200) \<le> x" "x \<le> pow2 200" by linarith+
  from binary64_mid [OF this] obtain a where a: "binary64 x = Fin a"
    "x * (1 - pow2 (- 53)) \<le> a" "a \<le> x * (1 + pow2 (- 53))" "x / 2 \<le> a" "a \<le> 2 * x"
    by blast
  have "pow2 (- 33) = pow2 (- 32) / 2" "pow2 64 = 2 * pow2 63" by (simp_all add: pow2_def)
  with lo hi a(4,5) have "pow2 (- 33) \<le> a" "a \<le> pow2 64" by linarith+
  then show ?thesis using a(1-3)
    by (simp add: int_times_float_def int_to_float_exact [OF n] x_def)
qed

lemma square_one_plus_u: "(1 + pow2 (- 53)) * (1 + pow2 (- 53)) \<le> 1 + pow2 (- 51)"
  by (simp add: pow2_def)

lemma side_fits:
  assumes "valid_dim n" and "valid_dim q" and "pow2 (- 32) \<le> s" and "s \<le> pow2 32"
    and "s \<le> of_int q / of_int n * (1 + pow2 (- 53))"
  shows "\<exists>a. int_times_float n (Fin s) = Inr (Fin a) \<and> py_int (Fin a) = Inr \<lfloor>a\<rfloor>
           \<and> 0 \<le> \<lfloor>a\<rfloor> \<and> \<lfloor>a\<rfloor> \<le> q
           \<and> of_int \<lfloor>a\<rfloor> \<le> of_int n * s * (1 + pow2 (- 53))
           \<and> of_int n * s * (1 - pow2 (- 53)) - 1 < of_int \<lfloor>a\<rfloor>"
proof -
  note N = valid_dim_rat [OF assms(1)] and Q = valid_dim_rat [OF assms(2)]
  from int_times_float_close [OF assms(1,3,4)] obtain a where a:
    "int_times_float n (Fin s) = Inr (Fin a)"
    "of_int n * s * (1 - pow2 (- 53)) \<le> a" "a \<le> of_int n * s * (1 + pow2 (- 53))"
    "pow2 (- 33) \<le> a" by blast
  have apos: "0 \<le> a" using a(4) pow2_pos [of "- 33"] by linarith
  have u1: "(0::rat) \<le> 1 + pow2 (- 53)" using pow2_pos [of "- 53"] by linarith
  have "of_int n * s \<le> of_int n * (of_int q / of_int n * (1 + pow2 (- 53)))"
    using assms(5) N(3) by (simp only: mult_left_mono less_imp_le)
  also have "\<dots> = of_int q * (1 + pow2 (- 53))" using N(3) by simp
  finally have "of_int n * s * (1 + pow2 (- 53))
      \<le> of_int q * (1 + pow2 (- 53)) * (1 + pow2 (- 53))"
    using u1 by (simp only: mult_right_mono)
  also have "\<dots> = of_int q * ((1 + pow2 (- 53)) * (1 + pow2 (- 53)))" by simp
  also have "\<dots> \<le> of_int q * (1 + pow2 (- 51))"
    using square_one_plus_u Q(3) by (simp only: mult_left_mono less_imp_le)
  also have "\<dots> = of_int q + of_int q * pow2 (- 51)" by (simp add: algebra_simps)
  also have "\<dots> < of_int q + 1"
  proof -
    have "of_int q * pow2 (- 51) < 2 ^ 31 * pow2 (- 51)"
      using Q(2) by (simp only: mult_strict_right_mono pow2_pos)
    also have "\<dots> < 1" by (simp add: pow2_def)
    finally show ?thesis by simp
  qed
  finally have "a < of_int q + 1" using a(3) by linarith
  then have "a < of_int (q + 1)" by simp
  then have "\<lfloor>a\<rfloor> < q + 1" by (simp only: floor_less_iff)
  then have le: "\<lfloor>a\<rfloor> \<le> q" by simp
  have t1: "of_int \<lfloor>a\<rfloor> \<le> of_int n * s * (1 + pow2 (- 53))"
    using a(3) of_int_floor_le [of a] by linarith
  have t2: "of_int n * s * (1 - pow2 (- 53)) - 1 < of_int \<lfloor>a\<rfloor>"
    using a(2) by linarith
  from apos have nonneg: "0 \<le> \<lfloor>a\<rfloor>" by simp
  from apos have "py_int (Fin a) = Inr \<lfloor>a\<rfloor>" by (simp add: py_int_def)
  with a(1) nonneg le t1 t2 show ?thesis by blast
qed


lemma scaled_size_fits:
  assumes "valid_dim quad_width" and "valid_dim quad_height" and "valid_dim w" and "valid_dim h"
    and "min_scale quad_width quad_height w h = Inr (Fin s)"
  shows "\<exists>new_w new_h. scaled_size w h (Fin s) = Inr (new_w, new_h)
           \<and> 0 \<le> new_w \<and> new_w \<le> quad_width \<and> 0 \<le> new_h \<and> new_h \<le> quad_height
           \<and> of_int new_w \<le> of_int w * s * (1 + pow2 (- 53))
           \<and> of_int w * s * (1 - pow2 (- 53)) - 1 < of_int new_w
           \<and> of_int new_h \<le> of_int h * s * (1 + pow2 (- 53))
           \<and> of_int h * s * (1 - pow2 (- 53)) - 1 < of_int new_h"
proof -
  from min_scale_close [OF assms(1-4)] assms(5) have s:
    "s \<le> of_int quad_width / of_int w * (1 + pow2 (- 53))"
    "s \<le> of_int quad_height / of_int h * (1 + pow2 (- 53))"
    "pow2 (- 32) \<le> s" "s \<le> pow2 32" by auto
  from side_fits [OF assms(3) assms(1) s(3) s(4) s(1)] obtain a where a:
    "int_times_float w (Fin s) = Inr (Fin a)" "py_int (Fin a) = Inr \<lfloor>a\<rfloor>"
    "0 \<le> \<lfloor>a\<rfloor>" "\<lfloor>a\<rfloor> \<le> quad_width"
    "of_int \<lfloor>a\<rfloor> \<le> of_int w * s * (1 + pow2 (- 53))"
    "of_int w * s * (1 - pow2 (- 53)) - 1 < of_int \<lfloor>a\<rfloor>" by blast
  from side_fits [OF assms(4) assms(2) s(3) s(4) s(2)] obtain b where b:
    "int_times_float h (Fin s) = Inr (Fin b)" "py_int (Fin b) = Inr \<lfloor>b\<rfloor>"
    "0 \<le> \<lfloor>b\<rfloor>" "\<lfloor>b\<rfloor> \<le> quad_height"
    "of_int \<lfloor>b\<rfloor> \<le> of_int h * s * (1 + pow2 (- 53))"
    "of_int h * s * (1 - pow2 (- 53)) - 1 < of_int \<lfloor>b\<rfloor>" by blast
  have "scaled_size w h (Fin s) = Inr (\<lfloor>a\<rfloor>, \<lfloor>b\<rfloor>)"
    by (simp add: scaled_size_def a(1,2) b(1,2))
  with a(3-6) b(3-6) show ?thesis by blast
qed

lemma scaled_area_finite:
  assumes "valid_dim w" and "valid_dim h" and "pow2 (- 32) \<le> s" and "s \<le> pow2 32"
  shows "\<exists>A. scaled_area w h (Fin s) = Inr (Fin A)"
proof -
  from int_times_float_close [OF assms(1,3,4)] obtain a where a:
    "int_times_float w (Fin s) = Inr (Fin a)" "pow2 (- 33) \<le> a" "a \<le> pow2 64" by blast
  from int_times_float_close [OF assms(2,3,4)] obtain b where b:
    "int_times_float h (Fin s) = Inr (Fin b)" "pow2 (- 33) \<le> b" "b \<le> pow2 64" by blast
  have apos: "0 \<le> a" using a(2) pow2_pos [of "- 33"] by linarith
  have bpos: "0 \<le> b" using b(2) pow2_pos [of "- 33"] by linarith
  have "pow2 (- 33) * pow2 (- 33) \<le> a * b"
    using a(2) b(2) apos by (intro mult_mono) (simp_all add: less_imp_le)
  then have lo: "pow2 (- 66) \<le> a * b" by (simp add: pow2_add [symmetric])
  have "a * b \<le> pow2 64 * pow2 64"
    using a(3) b(3) apos bpos by (intro mult_mono) (simp_all add: less_imp_le)
  then have hi: "a * b \<le> pow2 128" by (simp add: pow2_add [symmetric])
  have "pow2 (- 200) \<le> pow2 (- 66)" "pow2 128 \<le> pow2 200" by (rule pow2_mono, simp)+
  with lo hi have "pow2 (- 200) \<le> a * b" "a * b \<le> pow2 200" by linarith+
  from binary64_mid [OF this] obtain A where "binary64 (a * b) = Fin A" by blast
  then show ?thesis by (simp add: scaled_area_def a(1) b(1))
qed

lemma fit_image_to_quad_unfold:
  assumes "valid_dim quad_width" and "valid_dim quad_height"
    and "valid_dim (size_w img)" and "valid_dim (size_h img)"
  obtains s_n s_r a_n a_r where
    "min_scale quad_width quad_height (size_w img) (size_h img) = Inr (Fin s_n)"
    "min_scale quad_width quad_height (size_h img) (size_w img) = Inr (Fin s_r)"
    "area_normal img quad_width quad_height = Inr (Fin a_n)"
    "area_rotated img quad_width quad_height = Inr (Fin a_r)"
    "fit_image_to_quad img quad_width quad_height =
       (if a_r \<le> a_n
        then and_then (scaled_size (size_w img) (size_h img) (Fin s_n)) (resize img)
        else and_then (scaled_size (size_h img) (size_w img) (Fin s_r))
               (resize (rotate90 img)))"
proof -
  from min_scale_close [OF assms(1,2,3,4)] obtain s_n where n:
    "min_scale quad_width quad_height (size_w img) (size_h img) = Inr (Fin s_n)"
    "pow2 (- 32) \<le> s_n" "s_n \<le> pow2 32" by blast
  from min_scale_close [OF assms(1,2,4,3)] obtain s_r where r:
    "min_scale quad_width quad_height (size_h img) (size_w img) = Inr (Fin s_r)"
    "pow2 (- 32) \<le> s_r" "s_r \<le> pow2 32" by blast
  from scaled_area_finite [OF assms(3,4) n(2,3)] obtain a_n where an:
    "scaled_area (size_w img) (size_h img) (Fin s_n) = Inr (Fin a_n)" by blast
  from scaled_area_finite [OF assms(4,3) r(2,3)] obtain a_r where ar:
    "scaled_area (size_h img) (size_w img) (Fin s_r) = Inr (Fin a_r)" by blast
  have 1: "area_normal img quad_width quad_height = Inr (Fin a_n)"
    by (simp add: area_normal_def n(1) an)
  have 2: "area_rotated img quad_width quad_height = Inr (Fin a_r)"
    by (simp add: area_rotated_def r(1) ar)
  have 3: "fit_image_to_quad img quad_width quad_height =
             (if a_r \<le> a_n
              then and_then (scaled_size (size_w img) (size_h img) (Fin s_n)) (resize img)
              else and_then (scaled_size (size_h img) (size_w img) (Fin s_r))
                     (resize (rotate90 img)))"
    by (simp add: fit_image_to_quad_def Let_def n(1) r(1) an ar rotate90_def)
  from that [OF n(1) r(1) 1 2 3] show thesis .
qed

lemma resize_pair:
  "resize img (new_w, new_h) =
     (if 1 \<le> new_w \<and> 1 \<le> new_h
      then Inr \<lparr>size_w = new_w, size_h = new_h,
                raster_of = Resized (raster_of img) new_w new_h\<rparr>
      else Inl ValueError)"
  by (auto simp add: resize_def)

lemma fit_image_to_quad_fits:
  assumes "valid_dim (size_w img)" and "valid_dim (size_h img)"
    and "valid_dim quad_width" and "valid_dim quad_height"
  shows "\<exists>w' h' src s new_w new_h.
           ((w', h', src) = (size_w img, size_h img, raster_of img)
            \<or> (w', h', src) = (size_h img, size_w img, Rotated90 (raster_of img)))
         \<and> min_scale quad_width quad_height w' h' = Inr (Fin s)
         \<and> scaled_size w' h' (Fin s) = Inr (new_w, new_h)
         \<and> 0 \<le> new_w \<and> new_w \<le> quad_width
         \<and> 0 \<le> new_h \<and> new_h \<le> quad_height
         \<and> of_int new_w \<le> of_int w' * s * (1 + pow2 (- 53))
         \<and> of_int w' * s * (1 - pow2 (- 53)) - 1 < of_int new_w
         \<and> of_int new_h \<le> of_int h' * s * (1 + pow2 (- 53))
         \<and> of_int h' * s * (1 - pow2 (- 53)) - 1 < of_int new_h
         \<and> fit_image_to_quad img quad_width quad_height =
             (if 1 \<le> new_w \<and> 1 \<le> new_h
              then Inr \<lparr>size_w = new_w, size_h = new_h,
                        raster_of = Resized src new_w new_h\<rparr>
              else Inl ValueError)"
proof -
  obtain s_n s_r a_n a_r where u:
    "min_scale quad_width quad_height (size_w img) (size_h img) = Inr (Fin s_n)"
    "min_scale quad_width quad_height (size_h img) (size_w img) = Inr (Fin s_r)"
    "area_normal img quad_width quad_height = Inr (Fin a_n)"
    "area_rotated img quad_width quad_height = Inr (Fin a_r)"
    "fit_image_to_quad img quad_width quad_height =
       (if a_r \<le> a_n
        then and_then (scaled_size (size_w img) (size_h img) (Fin s_n)) (resize img)
        else and_then (scaled_size (size_h img) (size_w img) (Fin s_r))
               (resize (rotate90 img)))"
    by (rule fit_image_to_quad_unfold [OF assms(3,4,1,2)])
  show ?thesis
  proof (cases "a_r \<le> a_n")
    case True
    from scaled_size_fits [OF assms(3,4,1,2) u(1)] obtain new_w new_h where sz:
      "scaled_size (size_w img) (size_h img) (Fin s_n) = Inr (new_w, new_h)"
      "0 \<le> new_w" "new_w \<le> quad_width" "0 \<le> new_h" "new_h \<le> quad_height"
      "of_int new_w \<le> of_int (size_w img) * s_n * (1 + pow2 (- 53))"
      "of_int (size_w img) * s_n * (1 - pow2 (- 53)) - 1 < of_int new_w"
      "of_int new_h \<le> of_int (size_h img) * s_n * (1 + pow2 (- 53))"
      "of_int (size_h img) * s_n * (1 - pow2 (- 53)) - 1 < of_int new_h" by blast
    from True u(5) sz(1) have "fit_image_to_quad img quad_width quad_height =
        (if 1 \<le> new_w \<and> 1 \<le> new_h
         then Inr \<lparr>size_w = new_w, size_h = new_h,
                   raster_of = Resized (raster_of img) new_w new_h\<rparr>
         else Inl ValueError)"
      by (simp add: resize_pair)
    with sz u(1) show ?thesis
      by (intro exI [of _ "size_w img"] exI [of _ "size_h img"] exI [of _ "raster_of img"]
            exI [of _ s_n] exI [of _ new_w] exI [of _ new_h]) simp
  next
    case False
    from scaled_size_fits [OF assms(3,4,2,1) u(2)] obtain new_w new_h where sz:
      "scaled_size (size_h img) (size_w img) (Fin s_r) = Inr (new_w, new_h)"
      "0 \<le> new_w" "new_w \<le> quad_width" "0 \<le> new_h" "new_h \<le> quad_height"
      "of_int new_w \<le> of_int (size_h img) * s_r * (1 + pow2 (- 53))"
      "of_int (size_h img) * s_r * (1 - pow2 (- 53)) - 1 < of_int new_w"
      "of_int new_h \<le> of_int (size_w img) * s_r * (1 + pow2 (- 53))"
      "of_int (size_w img) * s_r * (1 - pow2 (- 53)) - 1 < of_int new_h" by blast
    from False u(5) sz(1) have "fit_image_to_quad img quad_width quad_height =
        (if 1 \<le> new_w \<and> 1 \<le> new_h
         then Inr \<lparr>size_w = new_w, size_h = new_h,
                   raster_of = Resized (Rotated90 (raster_of img)) new_w new_h\<rparr>
         else Inl ValueError)"
      by (simp add: resize_pair rotate90_def)
    with sz u(2) show ?thesis
      by (intro exI [of _ "size_h img"] exI [of _ "size_w img"]
            exI [of _ "Rotated90 (raster_of img)"]
            exI [of _ s_r] exI [of _ new_w] exI [of _ new_h]) simp
  qed
qed

lemma fit_image_to_quad_returns:
  assumes "valid_dim (size_w img)" and "valid_dim (size_h img)"
    and "valid_dim quad_width" and "valid_dim quad_height"
    and "fit_image_to_quad img quad_width quad_height = Inr fitted"
  shows "1 \<le> size_w fitted" and "size_w fitted \<le> quad_width"
    and "1 \<le> size_h fitted" and "size_h fitted \<le> quad_height"
proof -
  from fit_image_to_quad_fits [OF assms(1-4)] obtain src new_w new_h where f:
    "new_w \<le> quad_width" "new_h \<le> quad_height"
    "fit_image_to_quad img quad_width quad_height =
       (if 1 \<le> new_w \<and> 1 \<le> new_h
        then Inr \<lparr>size_w = new_w, size_h = new_h, raster_of = Resized src new_w new_h\<rparr>
        else Inl ValueError)" by blast
  from f(3) assms(5) have ok: "1 \<le> new_w \<and> 1 \<le> new_h"
    by (cases "1 \<le> new_w \<and> 1 \<le> new_h") simp_all
  with f(3) assms(5) have "fitted =
      \<lparr>size_w = new_w, size_h = new_h, raster_of = Resized src new_w new_h\<rparr>" by simp
  with ok f(1,2) show "1 \<le> size_w fitted" "size_w fitted \<le> quad_width"
    "1 \<le> size_h fitted" "size_h fitted \<le> quad_height" by simp_all
qed

lemma fit_image_to_quad_raises:
  assumes "valid_dim (size_w img)" and "valid_dim (size_h img)"
    and "valid_dim quad_width" and "valid_dim quad_height"
    and "fit_image_to_quad img quad_width quad_height = Inl e"
  shows "e = ValueError"
proof -
  from fit_image_to_quad_fits [OF assms(1-4)] obtain src new_w new_h where f:
    "fit_image_to_quad img quad_width quad_height =
       (if 1 \<le> new_w \<and> 1 \<le> new_h
        then Inr \<lparr>size_w = new_w, size_h = new_h, raster_of = Resized src new_w new_h\<rparr>
        else Inl ValueError)" by blast
  from f assms(5) show ?thesis
    by (cases "1 \<le> new_w \<and> 1 \<le> new_h") simp_all
qed

section \<open>The fitter on example images\<close>

text \<open>
  A 3000 x 2000 image and a 900 x 1200 region: the scales are the floats nearest to 0.3
  (normal) and 0.4 (rotated); the products with the sides round to whole numbers.
\<close>

lemma example_scales:
  "min_scale 900 1200 3000 2000 = Inr (Fin (5404319552844595 / 18014398509481984))"
  "min_scale 900 1200 2000 3000 = Inr (Fin (3602879701896397 / 9007199254740992))"
  by code_simp+

lemma example_areas:
  "scaled_area 3000 2000 (Fin (5404319552844595 / 18014398509481984)) = Inr (Fin 540000)"
  "scaled_area 2000 3000 (Fin (3602879701896397 / 9007199254740992)) = Inr (Fin 960000)"
  by code_simp+

lemma example_size:
  "scaled_size 2000 3000 (Fin (3602879701896397 / 9007199254740992)) = Inr (800, 1200)"
  by code_simp

lemma example_fit:
  "fit_image_to_quad \<lparr>size_w = 3000, size_h = 2000, raster_of = r\<rparr> 900 1200 =
     Inr \<lparr>size_w = 800, size_h = 1200, raster_of = Resized (Rotated90 r) 800 1200\<rparr>"
  by (simp add: fit_image_to_quad_def rotate90_def resize_def
      example_scales example_areas example_size)






section \<open>The size of the fitted image\<close>

text \<open>
  C1. For an image and a region whose sizes the imaging library can hold (positive and
  below \<open>2^31\<close>), the size \<open>new_w, new_h\<close> that \<open>fit_image_to_quad\<close> chooses is
  \<open>int(w' * s), int(h' * s)\<close> for the sides \<open>w', h'\<close> of the chosen orientation (the
  sides of the source, swapped when it is rotated) and the one scale
  \<open>s = min(quad_width / w', quad_height / h')\<close>. It is at most as wide and at most as
  high as the region, and each side is within one pixel, and a relative rounding error
  of \<open>2^-53\<close>, of the exact product. The fitter returns an image of exactly that size
  when both sides are at least one pixel; when the truncation leaves a side of zero
  pixels, \<open>resize\<close> raises \<open>ValueError\<close> and no image is returned. So every image that
  the fitter returns is at least 1 x 1 and fits the region.
\<close>

theorem fit_within_region:
  assumes "valid_dim (size_w img)" and "valid_dim (size_h img)"
    and "valid_dim quad_width" and "valid_dim quad_height"
  shows "\<exists>w' h' src s new_w new_h.
           ((w', h', src) = (size_w img, size_h img, raster_of img)
            \<or> (w', h', src) = (size_h img, size_w img, Rotated90 (raster_of img)))
         \<and> min_scale quad_width quad_height w' h' = Inr (Fin s)
         \<and> scaled_size w' h' (Fin s) = Inr (new_w, new_h)
         \<and> 0 \<le> new_w \<and> new_w \<le> quad_width
         \<and> 0 \<le> new_h \<and> new_h \<le> quad_height
         \<and> of_int new_w \<le> of_int w' * s * (1 + pow2 (- 53))
         \<and> of_int w' * s * (1 - pow2 (- 53)) - 1 < of_int new_w
         \<and> of_int new_h \<le> of_int h' * s * (1 + pow2 (- 53))
         \<and> of_int h' * s * (1 - pow2 (- 53)) - 1 < of_int new_h
         \<and> fit_image_to_quad img quad_width quad_height =
             (if 1 \<le> new_w \<and> 1 \<le> new_h
              then Inr \<lparr>size_w = new_w, size_h = new_h,
                        raster_of = Resized src new_w new_h\<rparr>
              else Inl ValueError)"
  using assms by (rule fit_image_to_quad_fits)

theorem fit_within_region_witness:
  "valid_dim (size_w example_photo) \<and> valid_dim (size_h example_photo)
   \<and> valid_dim 900 \<and> valid_dim 1200
   \<and> fit_image_to_quad example_photo 900 1200 =
       Inr \<lparr>size_w = 800, size_h = 1200,
            raster_of = Resized (Rotated90 (Decoded ''photo.jpg'')) 800 1200\<rparr>
   \<and> (\<exists>w' h' src s new_w new_h.
           ((w', h', src) =
              (size_w example_photo, size_h example_photo, raster_of example_photo)
            \<or> (w', h', src) =
              (size_h example_photo, size_w example_photo,
               Rotated90 (raster_of example_photo)))
         \<and> min_scale 900 1200 w' h' = Inr (Fin s)
         \<and> scaled_size w' h' (Fin s) = Inr (new_w, new_h)
         \<and> 0 \<le> new_w \<and> new_w \<le> 900
         \<and> 0 \<le> new_h \<and> new_h \<le> 1200
         \<and> of_int new_w \<le> of_int w' * s * (1 + pow2 (- 53))
         \<and> of_int w' * s * (1 - pow2 (- 53)) - 1 < of_int new_w
         \<and> of_int new_h \<le> of_int h' * s * (1 + pow2 (- 53))
         \<and> of_int h' * s * (1 - pow2 (- 53)) - 1 < of_int new_h
         \<and> fit_image_to_quad example_photo 900 1200 =
             (if 1 \<le> new_w \<and> 1 \<le> new_h
              then Inr \<lparr>size_w = new_w, size_h = new_h,
                        raster_of = Resized src new_w new_h\<rparr>
              else Inl ValueError))"
proof -
  have h1: "valid_dim (size_w example_photo)" and h2: "valid_dim (size_h example_photo)"
    and h3: "valid_dim 900" and h4: "valid_dim 1200"
    by (simp_all add: example_photo_def valid_dim_def)
  have r: "fit_image_to_quad example_photo 900 1200 =
       Inr \<lparr>size_w = 800, size_h = 1200,
            raster_of = Resized (Rotated90 (Decoded ''photo.jpg'')) 800 1200\<rparr>"
    by (simp add: example_photo_def example_fit)
  show ?thesis
    by (intro conjI h1 h2 h3 h4 r fit_within_region [OF h1 h2 h3 h4])
qed

section \<open>The orientation test\<close>

text \<open>
  C2. For an image and a region whose sizes the imaging library can hold, both scales
  and both covered areas are finite floats, and the comparison
  \<open>area_normal >= area_rotated\<close> alone decides the branch of \<open>fit_image_to_quad\<close>, where
  \<open>area_normal = (img_w * scale_normal) * (img_h * scale_normal)\<close> with
  \<open>scale_normal = min(quad_width / img_w, quad_height / img_h)\<close> and \<open>area_rotated\<close> is the
  same with the sides swapped. When the comparison holds, equal areas included, the
  source is resized as it is; otherwise it is rotated by 90 degrees and then resized.
  Whenever the fitter returns an image, that image is the resized source in the first
  case and the resized rotated source in the second.
\<close>

theorem orientation_by_area:
  assumes "valid_dim (size_w img)" and "valid_dim (size_h img)"
    and "valid_dim quad_width" and "valid_dim quad_height"
  shows "\<exists>s_n s_r a_n a_r.
           min_scale quad_width quad_height (size_w img) (size_h img) = Inr (Fin s_n)
         \<and> min_scale quad_width quad_height (size_h img) (size_w img) = Inr (Fin s_r)
         \<and> area_normal img quad_width quad_height = Inr (Fin a_n)
         \<and> area_rotated img quad_width quad_height = Inr (Fin a_r)
         \<and> float_ge (Fin a_n) (Fin a_r) = (a_r \<le> a_n)
         \<and> fit_image_to_quad img quad_width quad_height =
             (if float_ge (Fin a_n) (Fin a_r)
              then and_then (scaled_size (size_w img) (size_h img) (Fin s_n)) (resize img)
              else and_then (scaled_size (size_h img) (size_w img) (Fin s_r))
                     (resize (rotate90 img)))
         \<and> (\<forall>fitted. fit_image_to_quad img quad_width quad_height = Inr fitted \<longrightarrow>
               raster_of fitted =
                 (if float_ge (Fin a_n) (Fin a_r)
                  then Resized (raster_of img) (size_w fitted) (size_h fitted)
                  else Resized (Rotated90 (raster_of img)) (size_w fitted) (size_h fitted)))"
proof -
  obtain s_n s_r a_n a_r where u:
    "min_scale quad_width quad_height (size_w img) (size_h img) = Inr (Fin s_n)"
    "min_scale quad_width quad_height (size_h img) (size_w img) = Inr (Fin s_r)"
    "area_normal img quad_width quad_height = Inr (Fin a_n)"
    "area_rotated img quad_width quad_height = Inr (Fin a_r)"
    "fit_image_to_quad img quad_width quad_height =
       (if a_r \<le> a_n
        then and_then (scaled_size (size_w img) (size_h img) (Fin s_n)) (resize img)
        else and_then (scaled_size (size_h img) (size_w img) (Fin s_r))
               (resize (rotate90 img)))"
    by (rule fit_image_to_quad_unfold [OF assms(3,4,1,2)])
  have ge: "float_ge (Fin a_n) (Fin a_r) = (a_r \<le> a_n)" by simp
  have br: "fit_image_to_quad img quad_width quad_height =
             (if float_ge (Fin a_n) (Fin a_r)
              then and_then (scaled_size (size_w img) (size_h img) (Fin s_n)) (resize img)
              else and_then (scaled_size (size_h img) (size_w img) (Fin s_r))
                     (resize (rotate90 img)))"
    using u(5) by (simp only: ge)
  have ras: "\<forall>fitted. fit_image_to_quad img quad_width quad_height = Inr fitted \<longrightarrow>
               raster_of fitted =
                 (if float_ge (Fin a_n) (Fin a_r)
                  then Resized (raster_of img) (size_w fitted) (size_h fitted)
                  else Resized (Rotated90 (raster_of img)) (size_w fitted) (size_h fitted))"
  proof (intro allI impI)
    fix fitted assume r: "fit_image_to_quad img quad_width quad_height = Inr fitted"
    show "raster_of fitted =
                 (if float_ge (Fin a_n) (Fin a_r)
                  then Resized (raster_of img) (size_w fitted) (size_h fitted)
                  else Resized (Rotated90 (raster_of img)) (size_w fitted) (size_h fitted))"
    proof (cases "a_r \<le> a_n")
      case True
      from scaled_size_fits [OF assms(3,4,1,2) u(1)] obtain new_w new_h where
        "scaled_size (size_w img) (size_h img) (Fin s_n) = Inr (new_w, new_h)" by blast
      with True u(5) r have "resize img (new_w, new_h) = Inr fitted" by simp
      then have "raster_of fitted = Resized (raster_of img) (size_w fitted) (size_h fitted)"
        by (auto simp add: resize_def split: if_splits)
      with True show ?thesis by simp
    next
      case False
      from scaled_size_fits [OF assms(3,4,2,1) u(2)] obtain new_w new_h where
        "scaled_size (size_h img) (size_w img) (Fin s_r) = Inr (new_w, new_h)" by blast
      with False u(5) r have "resize (rotate90 img) (new_w, new_h) = Inr fitted" by simp
      then have "raster_of fitted =
          Resized (Rotated90 (raster_of img)) (size_w fitted) (size_h fitted)"
        by (auto simp add: resize_def rotate90_def split: if_splits)
      with False show ?thesis by simp
    qed
  qed
  from u(1-4) ge br ras show ?thesis by blast
qed

theorem orientation_by_area_witness:
  "valid_dim (size_w example_photo) \<and> valid_dim (size_h example_photo)
   \<and> valid_dim 900 \<and> valid_dim 1200
   \<and> (\<exists>s_n s_r a_n a_r.
           min_scale 900 1200 (size_w example_photo) (size_h example_photo) = Inr (Fin s_n)
         \<and> min_scale 900 1200 (size_h example_photo) (size_w example_photo) = Inr (Fin s_r)
         \<and> area_normal example_photo 900 1200 = Inr (Fin a_n)
         \<and> area_rotated example_photo 900 1200 = Inr (Fin a_r)
         \<and> float_ge (Fin a_n) (Fin a_r) = (a_r \<le> a_n)
         \<and> fit_image_to_quad example_photo 900 1200 =
             (if float_ge (Fin a_n) (Fin a_r)
              then and_then
                     (scaled_size (size_w example_photo) (size_h example_photo) (Fin s_n))
                     (resize example_photo)
              else and_then
                     (scaled_size (size_h example_photo) (size_w example_photo) (Fin s_r))
                     (resize (rotate90 example_photo)))
         \<and> (\<forall>fitted. fit_image_to_quad example_photo 900 1200 = Inr fitted \<longrightarrow>
               raster_of fitted =
                 (if float_ge (Fin a_n) (Fin a_r)
                  then Resized (raster_of example_photo) (size_w fitted) (size_h fitted)
                  else Resized (Rotated90 (raster_of example_photo))
                         (size_w fitted) (size_h fitted))))"
proof -
  have h1: "valid_dim (size_w example_photo)" and h2: "valid_dim (size_h example_photo)"
    and h3: "valid_dim 900" and h4: "valid_dim 1200"
    by (simp_all add: example_photo_def valid_dim_def)
  show ?thesis
    by (intro conjI h1 h2 h3 h4 orientation_by_area [OF h1 h2 h3 h4])
qed

section \<open>Pasting\<close>

lemma centred:
  fixes q n :: int
  assumes "0 \<le> n" and "n \<le> q"
  shows "0 \<le> (q - n) div 2" and "(q - n) div 2 + n \<le> q"
  using assms by simp_all

lemma centred_at_inside:
  assumes "0 \<le> size_w img" and "size_w img \<le> quad_width"
    and "0 \<le> size_h img" and "size_h img \<le> quad_height"
    and "in_box (centred_at quad_pos quad_width quad_height img) (size_w img, size_h img) x y"
  shows "in_box quad_pos (quad_width, quad_height) x y"
proof -
  obtain quad_x quad_y where q: "quad_pos = (quad_x, quad_y)" by (cases quad_pos)
  from centred [OF assms(1,2)] centred [OF assms(3,4)] assms(5) show ?thesis
    by (auto simp add: q centred_at_def in_box_def Let_def)
qed

lemma pasted_pixel_outside:
  "\<not> in_box pos (size_w img, size_h img) x y \<Longrightarrow> pasted_pixel img pos old x y = old"
  by (cases pos) (simp add: pasted_pixel_def)


lemma paste_frame:
  assumes "0 \<le> size_w img" and "size_w img \<le> quad_width"
    and "0 \<le> size_h img" and "size_h img \<le> quad_height"
    and "\<not> in_box quad_pos (quad_width, quad_height) x y"
  shows "pixel_at (paste sheet img (centred_at quad_pos quad_width quad_height img)) x y
           = pixel_at sheet x y"
proof -
  have "\<not> in_box (centred_at quad_pos quad_width quad_height img) (size_w img, size_h img) x y"
    using centred_at_inside [OF assms(1-4)] assms(5) by blast
  then show ?thesis by (simp add: paste_def pasted_pixel_outside)
qed


lemma paste_size [simp]:
  "sheet_w (paste sheet img pos) = sheet_w sheet" "sheet_h (paste sheet img pos) = sheet_h sheet"
  by (simp_all add: paste_def)

lemma place_image_returns:
  assumes "valid_dim (size_w img)" and "valid_dim (size_h img)"
    and "valid_dim quad_width" and "valid_dim quad_height"
    and "place_image sheet img quad_width quad_height quad_pos = Inr sheet'"
  shows "\<exists>fitted.
           fit_image_to_quad img quad_width quad_height = Inr fitted
         \<and> sheet' = paste sheet fitted (centred_at quad_pos quad_width quad_height fitted)
         \<and> 1 \<le> size_w fitted \<and> size_w fitted \<le> quad_width
         \<and> 1 \<le> size_h fitted \<and> size_h fitted \<le> quad_height"
proof (cases "fit_image_to_quad img quad_width quad_height")
  case (Inl e)
  with assms(5) show ?thesis by (simp add: place_image_def)
next
  case (Inr fitted)
  with assms(5) have "sheet' =
      paste sheet fitted (centred_at quad_pos quad_width quad_height fitted)"
    by (simp add: place_image_def)
  with Inr fit_image_to_quad_returns [OF assms(1-4) Inr] show ?thesis by blast
qed








lemma compose_1x2_single:
  "compose_1x2 [(img, img_path)] = place_image (new_sheet 1800 1200) img 1800 1200 (0, 0)"
  by (simp add: compose_1x2_def place_image_def centred_at_def Let_def)

text \<open>
  C10. A paste that is performed writes only inside the region of its image. For an
  image and a region whose sizes the imaging library can hold, when \<open>place_image\<close>
  returns a sheet, the fitter has returned an image of at least 1 x 1 pixels that is not
  larger than the region, so the centering offsets
  \<open>quad_x + (quad_width - new_w) // 2\<close> and \<open>quad_y + (quad_height - new_h) // 2\<close> are at
  least the origin of the region, offset plus fitted size does not pass the far edge,
  and every pixel outside the region, earlier pastes included, is what it was before.
  Both pasting loops go through \<open>place_image\<close>; the single-image path of
  \<open>create_1x2_sheet\<close> is \<open>place_image\<close> on the whole canvas (\<open>compose_1x2_single\<close>).
\<close>

theorem paste_stays_in_region:
  assumes "valid_dim (size_w img)" and "valid_dim (size_h img)"
    and "valid_dim quad_width" and "valid_dim quad_height"
    and "place_image sheet img quad_width quad_height (quad_x, quad_y) = Inr sheet'"
  shows "\<exists>fitted.
           fit_image_to_quad img quad_width quad_height = Inr fitted
         \<and> 1 \<le> size_w fitted \<and> 1 \<le> size_h fitted
         \<and> sheet' = paste sheet fitted
                      (quad_x + (quad_width - size_w fitted) div 2,
                       quad_y + (quad_height - size_h fitted) div 2)
         \<and> quad_x \<le> quad_x + (quad_width - size_w fitted) div 2
         \<and> quad_x + (quad_width - size_w fitted) div 2 + size_w fitted \<le> quad_x + quad_width
         \<and> quad_y \<le> quad_y + (quad_height - size_h fitted) div 2
         \<and> quad_y + (quad_height - size_h fitted) div 2 + size_h fitted \<le> quad_y + quad_height
         \<and> (\<forall>x y. \<not> in_box (quad_x, quad_y) (quad_width, quad_height) x y \<longrightarrow>
               pixel_at sheet' x y = pixel_at sheet x y)"
proof -
  from place_image_returns [OF assms] obtain fitted where f:
    "fit_image_to_quad img quad_width quad_height = Inr fitted"
    "sheet' = paste sheet fitted (centred_at (quad_x, quad_y) quad_width quad_height fitted)"
    "1 \<le> size_w fitted" "size_w fitted \<le> quad_width"
    "1 \<le> size_h fitted" "size_h fitted \<le> quad_height" by blast
  have nn: "0 \<le> size_w fitted" "0 \<le> size_h fitted" using f(3,5) by simp_all
  have c: "centred_at (quad_x, quad_y) quad_width quad_height fitted =
      (quad_x + (quad_width - size_w fitted) div 2,
       quad_y + (quad_height - size_h fitted) div 2)"
    by (simp add: centred_at_def Let_def)
  have fr: "\<forall>x y. \<not> in_box (quad_x, quad_y) (quad_width, quad_height) x y \<longrightarrow>
      pixel_at (paste sheet fitted
                  (centred_at (quad_x, quad_y) quad_width quad_height fitted)) x y
        = pixel_at sheet x y"
    using paste_frame [OF nn(1) f(4) nn(2) f(6)] by blast
  from centred [OF nn(1) f(4)] centred [OF nn(2) f(6)] f(1,2,3,5) fr show ?thesis
    unfolding c by simp
qed

theorem paste_stays_in_region_witness:
  "valid_dim (size_w example_photo) \<and> valid_dim (size_h example_photo)
   \<and> valid_dim 900 \<and> valid_dim 1200
   \<and> place_image (new_sheet 1800 1200) example_photo 900 1200 (900, 0) =
       Inr (paste (new_sheet 1800 1200)
             \<lparr>size_w = 800, size_h = 1200,
              raster_of = Resized (Rotated90 (Decoded ''photo.jpg'')) 800 1200\<rparr> (950, 0))
   \<and> (\<exists>fitted.
           fit_image_to_quad example_photo 900 1200 = Inr fitted
         \<and> 1 \<le> size_w fitted \<and> 1 \<le> size_h fitted
         \<and> paste (new_sheet 1800 1200)
             \<lparr>size_w = 800, size_h = 1200,
              raster_of = Resized (Rotated90 (Decoded ''photo.jpg'')) 800 1200\<rparr> (950, 0)
             = paste (new_sheet 1800 1200) fitted
                      (900 + (900 - size_w fitted) div 2, 0 + (1200 - size_h fitted) div 2)
         \<and> 900 \<le> 900 + (900 - size_w fitted) div 2
         \<and> 900 + (900 - size_w fitted) div 2 + size_w fitted \<le> 900 + 900
         \<and> 0 \<le> 0 + (1200 - size_h fitted) div 2
         \<and> 0 + (1200 - size_h fitted) div 2 + size_h fitted \<le> 0 + 1200
         \<and> (\<forall>x y. \<not> in_box (900, 0) (900, 1200) x y \<longrightarrow>
               pixel_at (paste (new_sheet 1800 1200)
                 \<lparr>size_w = 800, size_h = 1200,
                  raster_of = Resized (Rotated90 (Decoded ''photo.jpg'')) 800 1200\<rparr> (950, 0)) x y
                 = pixel_at (new_sheet 1800 1200) x y))"
proof -
  have h1: "valid_dim (size_w example_photo)" and h2: "valid_dim (size_h example_photo)"
    and h3: "valid_dim 900" and h4: "valid_dim 1200"
    by (simp_all add: example_photo_def valid_dim_def)
  have h5: "place_image (new_sheet 1800 1200) example_photo 900 1200 (900, 0) =
       Inr (paste (new_sheet 1800 1200)
             \<lparr>size_w = 800, size_h = 1200,
              raster_of = Resized (Rotated90 (Decoded ''photo.jpg'')) 800 1200\<rparr> (950, 0))"
    by (simp add: place_image_def example_photo_def example_fit centred_at_def)
  show ?thesis
    by (intro conjI h1 h2 h3 h4 h5 paste_stays_in_region [OF h1 h2 h3 h4 h5])
qed

section \<open>Sheets with some usable images\<close>









section \<open>Sheets without a usable image\<close>

lemma load_images_none:
  "\<forall>p \<in> set ps. decodable w p = None \<Longrightarrow> load_images w ps = []"
  by (induction ps) (simp_all add: open_rgb_def)

text \<open>
  C5. In \<open>create_1x2_sheet\<close>, when none of the (up to two) images of the chunk decodes,
  the call returns \<open>False\<close> and the world is unchanged: nothing is saved, at the output
  path or anywhere else.
\<close>

theorem optimized2_no_image_fails:
  assumes "\<forall>p \<in> set (take 2 image_paths). decodable w p = None"
  shows "create_1x2_sheet w image_paths output_path = (False, w)"
  using load_images_none [OF assms] by (simp add: create_1x2_sheet_def)

theorem optimized2_no_image_fails_witness:
  "decodable nothing_decodes ''a.jpg'' = None \<and> decodable nothing_decodes ''b.jpg'' = None
   \<and> create_1x2_sheet nothing_decodes [''a.jpg'', ''b.jpg''] ''TOPRINT/big_sheet_001.jpg''
       = (False, nothing_decodes)"
proof -
  have h: "\<forall>p \<in> set (take 2 [''a.jpg'', ''b.jpg'']). decodable nothing_decodes p = None"
    by (simp add: nothing_decodes_def)
  from optimized2_no_image_fails [OF h] show ?thesis
    by (simp add: nothing_decodes_def)
qed




section \<open>The worked example of the fitter\<close>

text \<open>
  C4. For a 3000 x 2000 image and a 900 x 1200 region the normal covered area is 540000,
  the rotated covered area is 960000, which is strictly larger, so the fitter rotates, and
  the image it returns is 800 x 1200.
\<close>

theorem fit_3000x2000_into_900x1200:
  "area_normal \<lparr>size_w = 3000, size_h = 2000, raster_of = r\<rparr> 900 1200 = Inr (Fin 540000)
   \<and> area_rotated \<lparr>size_w = 3000, size_h = 2000, raster_of = r\<rparr> 900 1200 = Inr (Fin 960000)
   \<and> \<not> float_ge (Fin 540000) (Fin 960000)
   \<and> fit_image_to_quad \<lparr>size_w = 3000, size_h = 2000, raster_of = r\<rparr> 900 1200 =
        Inr \<lparr>size_w = 800, size_h = 1200, raster_of = Resized (Rotated90 r) 800 1200\<rparr>"
  by (simp add: area_normal_def area_rotated_def fit_image_to_quad_def rotate90_def resize_def
      example_scales example_areas example_size)

section \<open>The choice between the two partitions\<close>

lemma two_by_one_areas:
  "calculate_layout_area two_by_one ''1x2'' = Inr \<lparr>total_area = 1440000, layout = ''1x2''\<rparr>"
  "calculate_layout_area two_by_one ''2x1'' = Inr \<lparr>total_area = 1440000, layout = ''2x1''\<rparr>"
  by code_simp+

text \<open>
  C3. For two processed images whose total covered areas, as \<open>_calculate_layout_area\<close>
  returns them, are equal for the two partitions, \<open>create_1x2_sheet\<close> takes the
  \<open>1x2\<close> partition: two regions of the full width 1800 and half the height, 600, one
  above the other at (0, 0) and (0, 600). The \<open>2x1\<close> partition is taken only when its
  total is strictly greater.
\<close>

theorem layout_tie_is_1x2:
  assumes "length processed_images = 2"
    and "calculate_layout_area processed_images ''1x2'' = Inr layout_1x2"
    and "calculate_layout_area processed_images ''2x1'' = Inr layout_2x1"
    and "total_area layout_2x1 = total_area layout_1x2"
  shows "choose_layout processed_images =
           Inr \<lparr>chosen = ''1x2'', region_w = 1800, region_h = 600,
                positions = [(0, 0), (0, 600)]\<rparr>
         \<and> compose_1x2 processed_images =
             fill_1x2 \<lparr>chosen = ''1x2'', region_w = 1800, region_h = 600,
                       positions = [(0, 0), (0, 600)]\<rparr>
               0 processed_images (new_sheet 1800 1200)"
  using assms by (simp add: choose_layout_def compose_1x2_def)

theorem layout_tie_is_1x2_witness:
  "length two_by_one = 2
   \<and> calculate_layout_area two_by_one ''1x2'' = Inr \<lparr>total_area = 1440000, layout = ''1x2''\<rparr>
   \<and> calculate_layout_area two_by_one ''2x1'' = Inr \<lparr>total_area = 1440000, layout = ''2x1''\<rparr>
   \<and> choose_layout two_by_one =
         Inr \<lparr>chosen = ''1x2'', region_w = 1800, region_h = 600,
              positions = [(0, 0), (0, 600)]\<rparr>
   \<and> compose_1x2 two_by_one =
         fill_1x2 \<lparr>chosen = ''1x2'', region_w = 1800, region_h = 600,
                   positions = [(0, 0), (0, 600)]\<rparr>
           0 two_by_one (new_sheet 1800 1200)"
proof -
  have len: "length two_by_one = 2"
    by (simp add: two_by_one_def)
  from layout_tie_is_1x2 [OF len two_by_one_areas(1) two_by_one_areas(2)] len two_by_one_areas
  show ?thesis by simp
qed

section \<open>The chunks of the batch scheduler\<close>







end
